theory Spec2Isabelle
  imports Main "HOL-Library.Word"
begin

section \<open>Beacon entries: validation and production\<close>

text \<open>
  A shallow embedding of the beacon part of \<^verbatim>\<open>miner.go\<close> (package \<^verbatim>\<open>beacon\<close>):
  \<^verbatim>\<open>ValidateBlockValues\<close>, \<^verbatim>\<open>BeaconEntriesForBlock\<close> and \<^verbatim>\<open>reverse\<close>.

  \<^item> \<^verbatim>\<open>uint64\<close> rounds are \<open>64 word\<close>; \<^verbatim>\<open>abi.ChainEpoch\<close> is Go's \<^verbatim>\<open>int64\<close>, a
    \<open>64 word\<close> read in two's complement: it is compared with \<open><s\<close> and \<open>\<le>s\<close>, and
    \<open>+\<close>, \<open>-\<close> wrap around as Go's do.
  \<^item> Go's \<^verbatim>\<open>error\<close> is \<open>error option\<close>, \<open>None\<close> being \<^verbatim>\<open>nil\<close>. Every
    \<^verbatim>\<open>fmt.Errorf\<close> of the source is a constructor of \<open>error\<close> that carries the formatted
    arguments in the order of the source, and the wrapped error last.
  \<^item> A \<^verbatim>\<open>RandomBeacon\<close> is an interface value. The source compares two of them
    with \<^verbatim>\<open>!=\<close>, which for the pointer-typed implementations is object identity: the
    record carries the identity of the object in the field \<open>ident\<close>, and \<^verbatim>\<open>!=\<close>
    compares it.
  \<^item> \<^verbatim>\<open>Entry\<close> talks to an external service. The state of everything outside the
    program is a value of the type variable \<open>'w\<close>, passed to \<^verbatim>\<open>Entry\<close> and returned
    by it together with the \<^verbatim>\<open>Response\<close> that the channel delivers. A
    \<^verbatim>\<open>context.Context\<close> is the function that tells, in a world where a request is
    pending, whether \<^verbatim>\<open>ctx.Done()\<close> wins the \<^verbatim>\<open>select\<close> (\<open>Some cause\<close>, the cause
    being \<^verbatim>\<open>ctx.Err()\<close>) or the response is received (\<open>None\<close>). The channel that
    \<^verbatim>\<open>Entry\<close> returns always delivers its \<^verbatim>\<open>Response\<close>, as the contract of the
    interface requires (spec 4.1); the implementations are not part of the source.
  \<^item> The pointers \<^verbatim>\<open>h\<close> and \<^verbatim>\<open>prevEntry\<close> are taken to be non-nil: the model
    receives the values they point to.
\<close>

type_synonym u64 = "64 word"
type_synonym ChainEpoch = "64 word"
type_synonym Version = "64 word"
type_synonym bytes = "8 word list"

record BeaconEntry =
  Round :: u64
  Data :: bytes

datatype error =
    External string
  | ExpectedTwoEntries nat
  | ForkPointInvalid BeaconEntry BeaconEntry error
  | ExpectedNoEntries nat
  | ExpectedEntries
  | WrongFinalRound u64 u64
  | UnexpectedRound u64 u64 ChainEpoch
  | EntryInvalid nat u64 bytes nat error
  | GettingEntry u64 error
  | RequestError error
  | TimedOut ChainEpoch error

record Response =
  resp_Entry :: BeaconEntry
  resp_Err :: "error option"

type_synonym 'w Context = "'w \<Rightarrow> error option"

record 'w RandomBeacon =
  ident :: nat
  Entry :: "'w Context \<Rightarrow> u64 \<Rightarrow> 'w \<Rightarrow> Response \<times> 'w"
  VerifyEntry :: "BeaconEntry \<Rightarrow> bytes \<Rightarrow> error option"
  MaxBeaconRoundForEpoch :: "Version \<Rightarrow> ChainEpoch \<Rightarrow> u64"
  IsChained :: bool

record 'w BeaconPoint =
  Start :: ChainEpoch
  Beacon :: "'w RandomBeacon"

type_synonym 'w Schedule = "'w BeaconPoint list"

record BlockHeader =
  Height :: ChainEpoch
  BeaconEntries :: "BeaconEntry list"

text \<open>
  Modelled from the spec: the method \<^verbatim>\<open>Schedule.BeaconForEpoch\<close>, which the source calls
  and does not define. The spec (4.2, 3): the points are ordered by start epoch,
  descending; the active point is the first one whose start epoch is at most the epoch
  asked for; when no point qualifies the call is fatal, here \<open>None\<close>.
\<close>

fun BeaconForEpoch :: "'w Schedule \<Rightarrow> ChainEpoch \<Rightarrow> 'w RandomBeacon option" where
  "BeaconForEpoch [] e = None"
| "BeaconForEpoch (bp # bs) e =
     (if Start bp \<le>s e then Some (Beacon bp) else BeaconForEpoch bs e)"

subsection \<open>ValidateBlockValues\<close>

text \<open>
  The loop over \<^verbatim>\<open>h.BeaconEntries\<close> that compares every round with the round of
  its epoch (unchained beacons only); \<open>i\<close> is the index of the head of the list.
\<close>

fun roundsLoop ::
  "'w RandomBeacon \<Rightarrow> Version \<Rightarrow> ChainEpoch \<Rightarrow> nat \<Rightarrow> BeaconEntry list \<Rightarrow> error option" where
  "roundsLoop currBeacon nv parentEpoch i [] = None"
| "roundsLoop currBeacon nv parentEpoch i (e # es) =
     (let correctRound = MaxBeaconRoundForEpoch currBeacon nv (parentEpoch + of_nat i + 1)
      in if Round e \<noteq> correctRound
         then Some (UnexpectedRound (Round e) correctRound (parentEpoch + of_nat i))
         else roundsLoop currBeacon nv parentEpoch (Suc i) es)"

text \<open>
  The loop that verifies the entries themselves; \<^verbatim>\<open>prevEntry\<close> is overwritten with
  the entry just verified.
\<close>

fun verifyLoop ::
  "'w RandomBeacon \<Rightarrow> nat \<Rightarrow> BeaconEntry list \<Rightarrow> BeaconEntry \<Rightarrow> error option" where
  "verifyLoop currBeacon i [] prevEntry = None"
| "verifyLoop currBeacon i (e # es) prevEntry =
     (case VerifyEntry currBeacon e (Data prevEntry) of
        Some err \<Rightarrow> Some (EntryInvalid i (Round e) (Data e) (length (Data e)) err)
      | None \<Rightarrow> verifyLoop currBeacon (Suc i) es e)"

text \<open>
  The result is \<open>None\<close> when the schedule has no beacon for one of the two epochs
  (the call does not return), \<open>Some None\<close> when the source returns \<^verbatim>\<open>nil\<close> and
  \<open>Some (Some err)\<close> when it returns the error \<open>err\<close>.
\<close>

definition ValidateBlockValues ::
  "'w Schedule \<Rightarrow> Version \<Rightarrow> BlockHeader \<Rightarrow> ChainEpoch \<Rightarrow> BeaconEntry \<Rightarrow> error option option" where
  "ValidateBlockValues bSchedule nv h parentEpoch prevEntry =
     (case BeaconForEpoch bSchedule parentEpoch of None \<Rightarrow> None | Some parentBeacon \<Rightarrow>
     (case BeaconForEpoch bSchedule (Height h) of None \<Rightarrow> None | Some currBeacon \<Rightarrow>
      Some (
        if ident parentBeacon \<noteq> ident currBeacon \<and> IsChained currBeacon then
          if length (BeaconEntries h) \<noteq> 2 then
            Some (ExpectedTwoEntries (length (BeaconEntries h)))
          else
            (case VerifyEntry currBeacon (BeaconEntries h ! 1) (Data (BeaconEntries h ! 0)) of
               Some err \<Rightarrow> Some (ForkPointInvalid (BeaconEntries h ! 1) (BeaconEntries h ! 0) err)
             | None \<Rightarrow> None)
        else
          let maxRound = MaxBeaconRoundForEpoch currBeacon nv (Height h) in
          if maxRound = Round prevEntry then
            if length (BeaconEntries h) \<noteq> 0 then
              Some (ExpectedNoEntries (length (BeaconEntries h)))
            else None
          else if length (BeaconEntries h) = 0 then Some ExpectedEntries
          else if IsChained currBeacon \<and> Round prevEntry = 0 then None
          else
            let last = BeaconEntries h ! (length (BeaconEntries h) - 1) in
            if Round last \<noteq> maxRound then Some (WrongFinalRound maxRound (Round last))
            else
              (case (if \<not> IsChained currBeacon
                     then roundsLoop currBeacon nv parentEpoch 0 (BeaconEntries h)
                     else None) of
                 Some err \<Rightarrow> Some err
               | None \<Rightarrow> verifyLoop currBeacon 0 (BeaconEntries h) prevEntry))))"

subsection \<open>BeaconEntriesForBlock\<close>

text \<open>
  \<^verbatim>\<open>reverse\<close> swaps \<^verbatim>\<open>arr[i]\<close> and \<^verbatim>\<open>arr[len(arr)-(1+i)]\<close> for every \<open>i\<close> below
  \<^verbatim>\<open>len(arr)/2\<close>, in place. Both indices are in range inside the loop.
\<close>

function reverseLoop :: "nat \<Rightarrow> BeaconEntry list \<Rightarrow> BeaconEntry list" where
  "reverseLoop i arr =
     (if i < length arr div 2
      then reverseLoop (i + 1)
             (arr[i := arr ! (length arr - (1 + i)), length arr - (1 + i) := arr ! i])
      else arr)"
  by pat_completeness auto
termination
  by (relation "measure (\<lambda>(i, arr). length arr div 2 - i)") auto

declare reverseLoop.simps [simp del]

definition reverse :: "BeaconEntry list \<Rightarrow> BeaconEntry list" where
  "reverse arr = reverseLoop 0 arr"

text \<open>
  The fetch loop of the path without a fork: \<^verbatim>\<open>currEpoch\<close> descends from
  \<^verbatim>\<open>epoch\<close> while it is above \<^verbatim>\<open>parentEpoch\<close>. The request is issued, then the
  \<^verbatim>\<open>select\<close> either receives the response or finds the context done.
\<close>

function fetchLoop ::
  "'w Context \<Rightarrow> 'w RandomBeacon \<Rightarrow> Version \<Rightarrow> ChainEpoch \<Rightarrow> ChainEpoch \<Rightarrow> ChainEpoch \<Rightarrow>
   BeaconEntry list \<Rightarrow> 'w \<Rightarrow> (error + BeaconEntry list) \<times> 'w" where
  "fetchLoop ctx currBeacon nv epoch parentEpoch currEpoch out w =
     (if parentEpoch <s currEpoch then
        let currRound = MaxBeaconRoundForEpoch currBeacon nv currEpoch;
            (resp, w') = Entry currBeacon ctx currRound w
        in case ctx w' of
             Some cause \<Rightarrow> (Inl (TimedOut epoch cause), w')
           | None \<Rightarrow>
               (case resp_Err resp of
                  Some err \<Rightarrow> (Inl (RequestError err), w')
                | None \<Rightarrow>
                    fetchLoop ctx currBeacon nv epoch parentEpoch (currEpoch - 1)
                      (out @ [resp_Entry resp]) w')
      else (Inr out, w))"
  by pat_completeness auto

termination
proof (relation "measure (\<lambda>(ctx, currBeacon, nv, epoch, parentEpoch, currEpoch, out, w).
                             nat (sint currEpoch - sint parentEpoch))", goal_cases)
  case 1
  show ?case by simp
next
  case (2 ctx currBeacon nv epoch parentEpoch currEpoch out w currRound x resp w')
  have lo: "- (2 ^ 63) \<le> sint parentEpoch" using sint_ge [of parentEpoch] by simp
  have hi: "sint currEpoch < 2 ^ 63" using sint_lt [of currEpoch] by simp
  have lt: "sint parentEpoch < sint currEpoch" using 2(1) by (simp add: word_sless_alt)
  from lo hi lt have "- (2 ^ 63) \<le> sint currEpoch - 1" "sint currEpoch - 1 < 2 ^ 63" by arith+
  then have "signed_take_bit 63 (sint currEpoch - 1) = sint currEpoch - 1"
    by (simp add: signed_take_bit_int_eq_self)
  then have "sint (currEpoch - 1) = sint currEpoch - 1" by (simp add: sint_word_ariths)
  with lt show ?case by simp
qed

declare fetchLoop.simps [simp del]

text \<open>
  The result is \<open>None\<close> when the schedule has no beacon for one of the two epochs,
  and otherwise the pair of what the source returns (\<open>Inl\<close> the error, \<open>Inr\<close> the
  entries; a \<^verbatim>\<open>nil\<close> slice is the empty list) and the world after the requests made.
\<close>

definition BeaconEntriesForBlock ::
  "'w Context \<Rightarrow> 'w Schedule \<Rightarrow> Version \<Rightarrow> ChainEpoch \<Rightarrow> ChainEpoch \<Rightarrow> BeaconEntry \<Rightarrow> 'w \<Rightarrow>
   ((error + BeaconEntry list) \<times> 'w) option" where
  "BeaconEntriesForBlock ctx bSchedule nv epoch parentEpoch prev w =
     (case BeaconForEpoch bSchedule parentEpoch of None \<Rightarrow> None | Some parentBeacon \<Rightarrow>
     (case BeaconForEpoch bSchedule epoch of None \<Rightarrow> None | Some currBeacon \<Rightarrow>
      Some (
        if ident parentBeacon \<noteq> ident currBeacon \<and> IsChained currBeacon then
          let round = MaxBeaconRoundForEpoch currBeacon nv epoch;
              (res, w1) = Entry currBeacon ctx (round - 1) w
          in (case resp_Err res of
                Some err \<Rightarrow> (Inl (GettingEntry (round - 1) err), w1)
              | None \<Rightarrow>
                  let (res', w2) = Entry currBeacon ctx round w1
                  in (case resp_Err res' of
                        Some err \<Rightarrow> (Inl (GettingEntry round err), w2)
                      | None \<Rightarrow> (Inr [resp_Entry res, resp_Entry res'], w2)))
        else
          let maxRound = MaxBeaconRoundForEpoch currBeacon nv epoch in
          if maxRound = Round prev then (Inr [], w)
          else
            let prev = (if Round prev = 0 then prev\<lparr>Round := maxRound - 1\<rparr> else prev) in
            (case fetchLoop ctx currBeacon nv epoch parentEpoch epoch [] w of
               (Inl err, w') \<Rightarrow> (Inl err, w')
             | (Inr out, w') \<Rightarrow> (Inr (reverse out), w')))))"

subsection \<open>Concrete beacons\<close>

text \<open>
  A beacon whose world is the list of the rounds requested so far: \<^verbatim>\<open>Entry\<close> appends
  the round to it and answers with an entry of that round, or with the error that
  \<open>fetchErr\<close> gives for the round. The other three methods are parameters.
\<close>

definition loggingBeacon ::
  "nat \<Rightarrow> bool \<Rightarrow> (Version \<Rightarrow> ChainEpoch \<Rightarrow> u64) \<Rightarrow> (BeaconEntry \<Rightarrow> bytes \<Rightarrow> error option) \<Rightarrow>
   (u64 \<Rightarrow> error option) \<Rightarrow> (u64 list) RandomBeacon" where
  "loggingBeacon i chained mbr verify fetchErr =
     \<lparr>ident = i,
      Entry = (\<lambda>ctx r w. (\<lparr>resp_Entry = \<lparr>Round = r, Data = []\<rparr>, resp_Err = fetchErr r\<rparr>, w @ [r])),
      VerifyEntry = verify,
      MaxBeaconRoundForEpoch = mbr,
      IsChained = chained\<rparr>"

text \<open>The round of an epoch is the epoch itself; every entry verifies; every fetch succeeds.\<close>

definition epochBeacon :: "nat \<Rightarrow> bool \<Rightarrow> (u64 list) RandomBeacon" where
  "epochBeacon i chained = loggingBeacon i chained (\<lambda>nv e. e) (\<lambda>e d. None) (\<lambda>r. None)"

text \<open>The round of every epoch is \<open>r\<close>.\<close>

definition constBeacon :: "nat \<Rightarrow> bool \<Rightarrow> u64 \<Rightarrow> (u64 list) RandomBeacon" where
  "constBeacon i chained r = loggingBeacon i chained (\<lambda>nv e. r) (\<lambda>e d. None) (\<lambda>r. None)"

text \<open>A context that is never done, and one that is done once \<open>n\<close> requests have been made.\<close>

definition background :: "(u64 list) Context" where
  "background w = None"

definition doneAfter :: "nat \<Rightarrow> (u64 list) Context" where
  "doneAfter n w = (if n \<le> length w then Some (External ''context canceled'') else None)"

definition entry :: "u64 \<Rightarrow> BeaconEntry" where
  "entry r = \<lparr>Round = r, Data = []\<rparr>"

text \<open>A beacon like \<open>epochBeacon\<close> whose \<^verbatim>\<open>VerifyEntry\<close> rejects every entry.\<close>

definition rejectingBeacon :: "nat \<Rightarrow> bool \<Rightarrow> (u64 list) RandomBeacon" where
  "rejectingBeacon i chained =
     loggingBeacon i chained (\<lambda>nv e. e) (\<lambda>e d. Some (External ''invalid signature'')) (\<lambda>r. None)"

text \<open>
  A beacon like \<open>epochBeacon\<close> whose \<^verbatim>\<open>VerifyEntry\<close> accepts an entry when its data is
  the previous data with the byte 1 in front.
\<close>

definition linkBeacon :: "nat \<Rightarrow> bool \<Rightarrow> (u64 list) RandomBeacon" where
  "linkBeacon i chained =
     loggingBeacon i chained (\<lambda>nv e. e)
       (\<lambda>e d. if Data e = 1 # d then None else Some (External ''invalid signature''))
       (\<lambda>r. None)"

text \<open>
  Two schedules with a fork at epoch 100, from an unchained beacon to a chained one; in
  the second the round of every epoch of the new beacon is 0.
\<close>

definition forkSchedule :: "(u64 list) Schedule" where
  "forkSchedule = [\<lparr>Start = 100, Beacon = linkBeacon 1 True\<rparr>,
                   \<lparr>Start = 0, Beacon = epochBeacon 0 False\<rparr>]"

definition zeroForkSchedule :: "(u64 list) Schedule" where
  "zeroForkSchedule = [\<lparr>Start = 100, Beacon = constBeacon 1 True 0\<rparr>,
                       \<lparr>Start = 0, Beacon = epochBeacon 0 False\<rparr>]"

text \<open>
  The assumption on a beacon that an entry fetched without error carries the round
  that was requested.
\<close>

definition carriesRound :: "'w Context \<Rightarrow> 'w RandomBeacon \<Rightarrow> bool" where
  "carriesRound ctx b \<longleftrightarrow>
     (\<forall>r w. resp_Err (fst (Entry b ctx r w)) = None \<longrightarrow> Round (resp_Entry (fst (Entry b ctx r w))) = r)"

section \<open>Auxiliary facts\<close>

subsection \<open>The in-place reversal is list reversal\<close>

lemma reverseLoop_length: "length (reverseLoop i arr) = length arr"
proof (induction i arr rule: reverseLoop.induct)
  case (1 i arr)
  show ?case
  proof (cases "i < length arr div 2")
    case True
    with 1 show ?thesis by (subst reverseLoop.simps) simp
  next
    case False
    then show ?thesis by (subst reverseLoop.simps) simp
  qed
qed

lemma reverseLoop_nth:
  "k < length arr \<Longrightarrow>
   reverseLoop i arr ! k =
     (if i \<le> k \<and> k < length arr - i then arr ! (length arr - 1 - k) else arr ! k)"
proof (induction i arr arbitrary: k rule: reverseLoop.induct)
  case (1 i arr)
  let ?n = "length arr"
  show ?case
  proof (cases "i < ?n div 2")
    case True
    let ?arr' = "arr[i := arr ! (?n - (1 + i)), ?n - (1 + i) := arr ! i]"
    have step: "reverseLoop i arr = reverseLoop (i + 1) ?arr'"
      using True by (subst reverseLoop.simps) simp
    have len: "length ?arr' = ?n" by simp
    have ih: "reverseLoop (i + 1) ?arr' ! k =
        (if i + 1 \<le> k \<and> k < ?n - (i + 1) then ?arr' ! (?n - 1 - k) else ?arr' ! k)"
      using "1.IH" [OF True, of k] "1.prems" by simp
    from True have lt: "i < ?n - (1 + i)" "?n - (1 + i) < ?n" by arith+
    show ?thesis
    proof (cases "i + 1 \<le> k \<and> k < ?n - (i + 1)")
      case inner: True
      then have "?n - 1 - k \<noteq> i" "?n - 1 - k \<noteq> ?n - (1 + i)" "?n - 1 - k < ?n" by arith+
      then have "?arr' ! (?n - 1 - k) = arr ! (?n - 1 - k)" by simp
      moreover from inner have "i \<le> k \<and> k < ?n - i" by arith
      ultimately show ?thesis using inner ih step by simp
    next
      case outer: False
      with ih have "reverseLoop (i + 1) ?arr' ! k = ?arr' ! k" by (simp only: if_False)
      with step have eq: "reverseLoop i arr ! k = ?arr' ! k" by (simp only:)
      show ?thesis
      proof (cases "k = i")
        case True
        with lt have "?arr' ! k = arr ! (?n - (1 + i))" by simp
        with eq True lt show ?thesis by simp
      next
        case ki: False
        show ?thesis
        proof (cases "k = ?n - (1 + i)")
          case True
          with lt have "?arr' ! k = arr ! i" by simp
          moreover from True lt have "?n - 1 - k = i" by arith
          ultimately show ?thesis using eq True lt by simp
        next
          case False
          with ki have "?arr' ! k = arr ! k" by simp
          with eq have same: "reverseLoop i arr ! k = arr ! k" by (simp only:)
          from False ki outer have out: "\<not> (i \<le> k \<and> k < ?n - i)" by arith
          show ?thesis by (simp only: same out if_False)
        qed
      qed
    qed
  next
    case False
    then have stop: "reverseLoop i arr = arr" by (subst reverseLoop.simps) simp
    show ?thesis
    proof (cases "i \<le> k \<and> k < ?n - i")
      case True
      with False have "?n - 1 - k = k" by arith
      with stop show ?thesis by simp
    next
      case outside: False
      show ?thesis by (simp only: stop outside if_False)
    qed
  qed
qed

lemma reverse_eq_rev: "reverse arr = rev arr"
proof (rule nth_equalityI)
  show "length (reverse arr) = length (rev arr)"
    by (simp add: reverse_def reverseLoop_length)
next
  fix k assume "k < length (reverse arr)"
  then have k: "k < length arr" by (simp add: reverse_def reverseLoop_length)
  then show "reverse arr ! k = rev arr ! k"
    by (simp add: reverse_def reverseLoop_nth rev_nth)
qed

subsection \<open>Signed epochs\<close>

lemma sint_pred_above:
  fixes c p :: "64 word"
  assumes "p <s c"
  shows "sint (c - 1) = sint c - 1"
proof -
  have lo: "- (2 ^ 63) \<le> sint p" using sint_ge [of p] by simp
  have hi: "sint c < 2 ^ 63" using sint_lt [of c] by simp
  have "sint p < sint c" using assms by (simp add: word_sless_alt)
  with lo hi have "- (2 ^ 63) \<le> sint c - 1" "sint c - 1 < 2 ^ 63" by arith+
  then have "signed_take_bit 63 (sint c - 1) = sint c - 1"
    by (simp add: signed_take_bit_int_eq_self)
  then show ?thesis by (simp add: sint_word_ariths)
qed

lemma sint_epoch_offset:
  fixes c p :: "64 word"
  assumes "int i < sint c - sint p"
  shows "sint (p + of_nat i + 1) = sint p + int i + 1"
proof -
  have lo: "- (2 ^ 63) \<le> sint p" using sint_ge [of p] by simp
  have hi: "sint c < 2 ^ 63" using sint_lt [of c] by simp
  have "p + of_nat i + 1 = word_of_int (sint p + int i + 1)" by simp
  then have "sint (p + of_nat i + 1) = signed_take_bit 63 (sint p + int i + 1)"
    by (simp only: sint_sbintrunc') simp
  moreover from lo hi assms
  have "- (2 ^ 63) \<le> sint p + int i + 1" "sint p + int i + 1 < 2 ^ 63" by arith+
  then have "signed_take_bit 63 (sint p + int i + 1) = sint p + int i + 1"
    by (simp add: signed_take_bit_int_eq_self)
  ultimately show ?thesis by simp
qed

lemma epoch_diff:
  fixes c p :: "64 word"
  assumes "int n = sint c - sint p"
  shows "p + of_nat n = c"
proof -
  have "p + of_nat n = word_of_int (sint p + int n)" by simp
  also have "\<dots> = word_of_int (sint c)" using assms by simp
  finally show ?thesis by simp
qed

lemma nonneg_signed_less:
  fixes a b :: "64 word"
  assumes "0 \<le> sint a" and "a <s b"
  shows "a < b"
proof -
  from assms have ab: "sint a < sint b" by (simp add: word_sless_alt)
  have pos: "uint w = sint w" if "0 \<le> sint w" for w :: "64 word"
  proof -
    have "sint w < 2 ^ 63" using sint_lt [of w] by simp
    then have "sint w < 2 ^ 64" by simp
    with that show ?thesis by (simp add: uint_sint take_bit_int_eq_self_iff)
  qed
  from assms(1) ab have "0 \<le> sint b" by simp
  with assms(1) ab pos [of a] pos [of b] have "uint a < uint b" by simp
  then show ?thesis by (simp add: word_less_def)
qed

subsection \<open>The fetch loop\<close>

lemma fetchLoop_unfold:
  "fetchLoop ctx currBeacon nv epoch parentEpoch currEpoch out w =
     (if parentEpoch <s currEpoch then
        (case ctx (snd (Entry currBeacon ctx (MaxBeaconRoundForEpoch currBeacon nv currEpoch) w)) of
           Some cause \<Rightarrow>
             (Inl (TimedOut epoch cause),
              snd (Entry currBeacon ctx (MaxBeaconRoundForEpoch currBeacon nv currEpoch) w))
         | None \<Rightarrow>
             (case resp_Err (fst (Entry currBeacon ctx
                                    (MaxBeaconRoundForEpoch currBeacon nv currEpoch) w)) of
                Some err \<Rightarrow>
                  (Inl (RequestError err),
                   snd (Entry currBeacon ctx (MaxBeaconRoundForEpoch currBeacon nv currEpoch) w))
              | None \<Rightarrow>
                  fetchLoop ctx currBeacon nv epoch parentEpoch (currEpoch - 1)
                    (out @ [resp_Entry (fst (Entry currBeacon ctx
                                (MaxBeaconRoundForEpoch currBeacon nv currEpoch) w))])
                    (snd (Entry currBeacon ctx (MaxBeaconRoundForEpoch currBeacon nv currEpoch) w))))
      else (Inr out, w))"
  by (subst fetchLoop.simps) (simp add: Let_def split_beta)

lemma fetchLoop_rounds:
  assumes "carriesRound ctx b"
    and "fetchLoop ctx b nv epoch parentEpoch currEpoch out w = (Inr res, w')"
  shows "\<exists>xs. res = out @ xs \<and> int (length xs) = max 0 (sint currEpoch - sint parentEpoch)
           \<and> (\<forall>j<length xs. Round (xs ! j) = MaxBeaconRoundForEpoch b nv (currEpoch - of_nat j))"
  using assms
proof (induction ctx b nv epoch parentEpoch currEpoch out w rule: fetchLoop.induct)
  case (1 ctx currBeacon nv epoch parentEpoch currEpoch out w)
  let ?r = "MaxBeaconRoundForEpoch currBeacon nv currEpoch"
  let ?a = "Entry currBeacon ctx ?r w"
  show ?case
  proof (cases "parentEpoch <s currEpoch")
    case False
    with "1.prems"(2) have "res = out" by (subst (asm) fetchLoop_unfold) simp
    moreover from False have "sint currEpoch - sint parentEpoch \<le> 0"
      by (simp add: word_sless_alt)
    ultimately show ?thesis by simp
  next
    case True
    from "1.prems"(2) True have c: "ctx (snd ?a) = None"
      by (subst (asm) fetchLoop_unfold) (simp split: option.splits)
    from "1.prems"(2) True c have e: "resp_Err (fst ?a) = None"
      by (subst (asm) fetchLoop_unfold) (simp split: option.splits)
    from "1.prems"(2) True c e have rec:
      "fetchLoop ctx currBeacon nv epoch parentEpoch (currEpoch - 1) (out @ [resp_Entry (fst ?a)]) (snd ?a)
       = (Inr res, w')"
      by (subst (asm) fetchLoop_unfold) simp
    have "\<exists>xs. res = (out @ [resp_Entry (fst ?a)]) @ xs
            \<and> int (length xs) = max 0 (sint (currEpoch - 1) - sint parentEpoch)
            \<and> (\<forall>j<length xs. Round (xs ! j) = MaxBeaconRoundForEpoch currBeacon nv (currEpoch - 1 - of_nat j))"
      using "1.IH" [OF True refl refl prod.collapse c e "1.prems"(1) rec] .
    then obtain xs where xs: "res = (out @ [resp_Entry (fst ?a)]) @ xs"
      "int (length xs) = max 0 (sint (currEpoch - 1) - sint parentEpoch)"
      "\<forall>j<length xs. Round (xs ! j) = MaxBeaconRoundForEpoch currBeacon nv (currEpoch - 1 - of_nat j)"
      by blast
    let ?ys = "resp_Entry (fst ?a) # xs"
    have r0: "Round (resp_Entry (fst ?a)) = ?r"
      using "1.prems"(1) e by (simp add: carriesRound_def)
    have "sint parentEpoch < sint currEpoch" using True by (simp add: word_sless_alt)
    with xs(2) have len: "int (length ?ys) = max 0 (sint currEpoch - sint parentEpoch)"
      by (simp add: sint_pred_above [OF True])
    have "\<forall>j<length ?ys. Round (?ys ! j) = MaxBeaconRoundForEpoch currBeacon nv (currEpoch - of_nat j)"
    proof (intro allI impI)
      fix j assume j: "j < length ?ys"
      show "Round (?ys ! j) = MaxBeaconRoundForEpoch currBeacon nv (currEpoch - of_nat j)"
      proof (cases j)
        case 0
        with r0 show ?thesis by simp
      next
        case (Suc j')
        with j xs(3) show ?thesis by (simp add: algebra_simps)
      qed
    qed
    with len xs(1) show ?thesis by (intro exI [of _ ?ys]) simp
  qed
qed

subsection \<open>The path of the producer without a fork\<close>

lemma BeaconEntriesForBlock_rounds:
  assumes "BeaconForEpoch bSchedule parentEpoch = Some parentBeacon"
    and "BeaconForEpoch bSchedule epoch = Some currBeacon"
    and "\<not> (ident parentBeacon \<noteq> ident currBeacon \<and> IsChained currBeacon)"
    and "carriesRound ctx currBeacon"
    and "BeaconEntriesForBlock ctx bSchedule nv epoch parentEpoch prev w = Some (Inr es, w')"
  shows "int (length es) =
           (if MaxBeaconRoundForEpoch currBeacon nv epoch = Round prev then 0
            else max 0 (sint epoch - sint parentEpoch))"
    and "\<forall>i<length es. Round (es ! i) =
           MaxBeaconRoundForEpoch currBeacon nv (parentEpoch + of_nat i + 1)"
proof -
  have both: "int (length es) =
           (if MaxBeaconRoundForEpoch currBeacon nv epoch = Round prev then 0
            else max 0 (sint epoch - sint parentEpoch))
      \<and> (\<forall>i<length es. Round (es ! i) =
           MaxBeaconRoundForEpoch currBeacon nv (parentEpoch + of_nat i + 1))"
  proof (cases "MaxBeaconRoundForEpoch currBeacon nv epoch = Round prev")
    case True
    with assms have "es = []" by (auto simp: BeaconEntriesForBlock_def)
    with True show ?thesis by simp
  next
    case False
    obtain r wf where f: "fetchLoop ctx currBeacon nv epoch parentEpoch epoch [] w = (r, wf)"
      by (cases "fetchLoop ctx currBeacon nv epoch parentEpoch epoch [] w")
    from assms(1,2,3,5) False f obtain out where out: "r = Inr out" "es = reverse out"
      by (cases r) (auto simp: BeaconEntriesForBlock_def Let_def)
    from fetchLoop_rounds [OF assms(4) f [unfolded out(1)]]
    have n: "int (length out) = max 0 (sint epoch - sint parentEpoch)"
      and rounds: "\<forall>j<length out. Round (out ! j) =
                     MaxBeaconRoundForEpoch currBeacon nv (epoch - of_nat j)"
      by auto
    have es: "es = rev out" using out(2) by (simp add: reverse_eq_rev)
    have "\<forall>i<length es. Round (es ! i) =
           MaxBeaconRoundForEpoch currBeacon nv (parentEpoch + of_nat i + 1)"
    proof (intro allI impI)
      fix i assume i: "i < length es"
      with es have i': "i < length out" by simp
      then have "es ! i = out ! (length out - Suc i)" using es by (simp add: rev_nth)
      moreover from i' have "length out - Suc i < length out" by simp
      ultimately have "Round (es ! i) =
          MaxBeaconRoundForEpoch currBeacon nv (epoch - of_nat (length out - Suc i))"
        using rounds by simp
      moreover have "epoch - of_nat (length out - Suc i) = parentEpoch + of_nat i + 1"
      proof -
        from i' n have "int (length out) = sint epoch - sint parentEpoch" by simp
        then have "parentEpoch + of_nat (length out) = epoch" by (rule epoch_diff)
        moreover from i' have "length out = (length out - Suc i) + Suc i" by simp
        then have "(of_nat (length out) :: 64 word)
                     = of_nat (length out - Suc i) + of_nat (Suc i)"
          by (metis of_nat_add)
        ultimately show ?thesis by (simp add: algebra_simps)
      qed
      ultimately show "Round (es ! i) =
          MaxBeaconRoundForEpoch currBeacon nv (parentEpoch + of_nat i + 1)" by simp
    qed
    with n es False show ?thesis by simp
  qed
  from both show "int (length es) =
           (if MaxBeaconRoundForEpoch currBeacon nv epoch = Round prev then 0
            else max 0 (sint epoch - sint parentEpoch))" by blast
  from both show "\<forall>i<length es. Round (es ! i) =
           MaxBeaconRoundForEpoch currBeacon nv (parentEpoch + of_nat i + 1)" by blast
qed

subsection \<open>The fork branch of the producer\<close>

lemma BeaconEntriesForBlock_fork:
  assumes "BeaconForEpoch bSchedule parentEpoch = Some parentBeacon"
    and "BeaconForEpoch bSchedule epoch = Some currBeacon"
    and "ident parentBeacon \<noteq> ident currBeacon"
    and "IsChained currBeacon"
    and "MaxBeaconRoundForEpoch currBeacon nv epoch = round"
    and "round - 1 = before"
  shows "BeaconEntriesForBlock ctx bSchedule nv epoch parentEpoch prev w
         = Some (case resp_Err (fst (Entry currBeacon ctx before w)) of
                   Some err \<Rightarrow> (Inl (GettingEntry before err), snd (Entry currBeacon ctx before w))
                 | None \<Rightarrow>
                     (case resp_Err (fst (Entry currBeacon ctx round
                                            (snd (Entry currBeacon ctx before w)))) of
                        Some err \<Rightarrow>
                          (Inl (GettingEntry round err),
                           snd (Entry currBeacon ctx round (snd (Entry currBeacon ctx before w))))
                      | None \<Rightarrow>
                          (Inr [resp_Entry (fst (Entry currBeacon ctx before w)),
                                resp_Entry (fst (Entry currBeacon ctx round
                                                   (snd (Entry currBeacon ctx before w))))],
                           snd (Entry currBeacon ctx round (snd (Entry currBeacon ctx before w))))))"
  using assms
  by (auto simp: BeaconEntriesForBlock_def Let_def split: option.splits prod.splits)

subsection \<open>The loops of the validator\<close>

lemma all_less_Suc_shift: "(\<forall>j<Suc n. P j) \<longleftrightarrow> P 0 \<and> (\<forall>j<n. P (Suc j))"
  by (auto simp: less_Suc_eq_0_disj)

lemma roundsLoop_None_iff:
  "roundsLoop b nv p i es = None \<longleftrightarrow>
     (\<forall>j<length es. Round (es ! j) = MaxBeaconRoundForEpoch b nv (p + of_nat (i + j) + 1))"
proof (induction es arbitrary: i)
  case Nil
  show ?case by simp
next
  case (Cons e es)
  show ?case
    by (simp add: Cons.IH all_less_Suc_shift Let_def)
qed

lemma verifyLoop_None_iff:
  "verifyLoop b i es prev = None \<longleftrightarrow>
     (\<forall>j<length es. VerifyEntry b (es ! j) (Data (if j = 0 then prev else es ! (j - 1))) = None)"
proof (induction es arbitrary: i prev)
  case Nil
  show ?case by simp
next
  case (Cons e es)
  have shift: "\<And>j. (if j = 0 then e else es ! (j - 1)) = (e # es) ! j"
    by (simp add: nth_Cons')
  show ?case
    by (simp add: Cons.IH all_less_Suc_shift shift split: option.splits)
qed

lemma verifyLoop_first_failure:
  assumes "k < length es"
    and "\<forall>j<k. VerifyEntry b (es ! j) (Data (if j = 0 then prev else es ! (j - 1))) = None"
    and "VerifyEntry b (es ! k) (Data (if k = 0 then prev else es ! (k - 1))) = Some err"
  shows "verifyLoop b i es prev =
           Some (EntryInvalid (i + k) (Round (es ! k)) (Data (es ! k)) (length (Data (es ! k))) err)"
  using assms
proof (induction es arbitrary: i prev k)
  case Nil
  then show ?case by simp
next
  case (Cons e es)
  show ?case
  proof (cases k)
    case 0
    with Cons.prems(3) show ?thesis by simp
  next
    case (Suc k')
    from Cons.prems(2) Suc have head: "VerifyEntry b e (Data prev) = None" by auto
    from Cons.prems(1) Suc have k': "k' < length es" by simp
    have before: "\<forall>j<k'. VerifyEntry b (es ! j) (Data (if j = 0 then e else es ! (j - 1))) = None"
    proof (intro allI impI)
      fix j assume "j < k'"
      with Cons.prems(2) Suc
      have "VerifyEntry b ((e # es) ! Suc j)
              (Data (if Suc j = 0 then prev else (e # es) ! (Suc j - 1))) = None"
        by (metis Suc_less_eq)
      then show "VerifyEntry b (es ! j) (Data (if j = 0 then e else es ! (j - 1))) = None"
        by (simp add: nth_Cons')
    qed
    from Cons.prems(3) Suc
    have at: "VerifyEntry b (es ! k') (Data (if k' = 0 then e else es ! (k' - 1))) = Some err"
      by (simp add: nth_Cons')
    from Cons.IH [OF k' before at, of "Suc i"] head Suc show ?thesis by simp
  qed
qed

lemma ValidateBlockValues_checks:
  assumes "BeaconForEpoch bSchedule parentEpoch = Some parentBeacon"
    and "BeaconForEpoch bSchedule epoch = Some currBeacon"
    and "\<not> (ident parentBeacon \<noteq> ident currBeacon \<and> IsChained currBeacon)"
    and "MaxBeaconRoundForEpoch currBeacon nv epoch \<noteq> Round prevEntry"
    and "es \<noteq> []"
    and "\<not> (IsChained currBeacon \<and> Round prevEntry = 0)"
  shows "ValidateBlockValues bSchedule nv \<lparr>Height = epoch, BeaconEntries = es\<rparr> parentEpoch prevEntry
         = Some (if Round (last es) \<noteq> MaxBeaconRoundForEpoch currBeacon nv epoch
                 then Some (WrongFinalRound (MaxBeaconRoundForEpoch currBeacon nv epoch)
                              (Round (last es)))
                 else if IsChained currBeacon then verifyLoop currBeacon 0 es prevEntry
                 else (case roundsLoop currBeacon nv parentEpoch 0 es of
                         Some err \<Rightarrow> Some err
                       | None \<Rightarrow> verifyLoop currBeacon 0 es prevEntry))"
  using assms
  by (auto simp: ValidateBlockValues_def Let_def last_conv_nth split: option.splits)

section \<open>The claims\<close>

text \<open>
  C1 (validator/producer duality). The schedule resolves the parent epoch and the block
  epoch to the same unchained beacon, and the block epoch is above the parent epoch. If
  fetched entries carry the round requested, \<^verbatim>\<open>BeaconEntriesForBlock\<close> returns the
  entries \<open>es\<close> without error, and \<^verbatim>\<open>VerifyEntry\<close> accepts every one of them against
  the data of the entry before it (the previous entry for the first), then
  \<^verbatim>\<open>ValidateBlockValues\<close> accepts the block of that epoch that carries \<open>es\<close>, for the
  same schedule, network version, parent epoch and previous entry.
\<close>

theorem producer_validator_duality:
  assumes "BeaconForEpoch bSchedule parentEpoch = Some b"
    and "BeaconForEpoch bSchedule epoch = Some b"
    and "\<not> IsChained b"
    and "parentEpoch <s epoch"
    and "carriesRound ctx b"
    and "BeaconEntriesForBlock ctx bSchedule nv epoch parentEpoch prev w = Some (Inr es, w')"
    and "\<forall>i<length es. VerifyEntry b (es ! i) (Data (if i = 0 then prev else es ! (i - 1))) = None"
  shows "ValidateBlockValues bSchedule nv \<lparr>Height = epoch, BeaconEntries = es\<rparr> parentEpoch prev
         = Some None"
proof (cases "MaxBeaconRoundForEpoch b nv epoch = Round prev")
  case True
  have nf: "\<not> (ident b \<noteq> ident b \<and> IsChained b)" by simp
  from BeaconEntriesForBlock_rounds(1) [OF assms(1,2) nf assms(5,6)] True
  have "es = []" by simp
  with True assms(1,2) show ?thesis by (simp add: ValidateBlockValues_def)
next
  case False
  have nf: "\<not> (ident b \<noteq> ident b \<and> IsChained b)" by simp
  have nb: "\<not> (IsChained b \<and> Round prev = 0)" using assms(3) by simp
  from assms(4) have pos: "0 < sint epoch - sint parentEpoch" by (simp add: word_sless_alt)
  from BeaconEntriesForBlock_rounds(1) [OF assms(1,2) nf assms(5,6)] False pos
  have len: "int (length es) = sint epoch - sint parentEpoch" by simp
  with pos have ne: "es \<noteq> []" by auto
  note rounds = BeaconEntriesForBlock_rounds(2) [OF assms(1,2) nf assms(5,6)]
  from ne have "last es = es ! (length es - 1)" by (simp add: last_conv_nth)
  moreover from ne have "length es - 1 < length es" by simp
  ultimately have "Round (last es) =
      MaxBeaconRoundForEpoch b nv (parentEpoch + of_nat (length es - 1) + 1)"
    using rounds by simp
  moreover have "parentEpoch + of_nat (length es - 1) + 1 = epoch"
  proof -
    from ne have "length es = Suc (length es - 1)" by simp
    then have "(of_nat (length es) :: 64 word) = of_nat (length es - 1) + 1"
      by (metis of_nat_Suc add.commute)
    with epoch_diff [OF len] show ?thesis by (simp add: algebra_simps)
  qed
  ultimately have last: "Round (last es) = MaxBeaconRoundForEpoch b nv epoch" by simp
  have r: "roundsLoop b nv parentEpoch 0 es = None"
    using rounds roundsLoop_None_iff [of b nv parentEpoch 0 es] by simp
  have v: "verifyLoop b 0 es prev = None"
    using assms(7) verifyLoop_None_iff [of b 0 es prev] by simp
  show ?thesis
    unfolding ValidateBlockValues_checks [OF assms(1,2) nf False ne nb]
    using last r v assms(3) by simp
qed

theorem producer_validator_duality_witness:
  "ValidateBlockValues [\<lparr>Start = 0, Beacon = epochBeacon 0 False\<rparr>] 0
     \<lparr>Height = 13, BeaconEntries = [entry 11, entry 12, entry 13]\<rparr> 10 (entry 10) = Some None"
proof -
  let ?b = "epochBeacon 0 False"
  let ?s = "[\<lparr>Start = 0, Beacon = ?b\<rparr>]"
  have 1: "BeaconForEpoch ?s 10 = Some ?b" by (simp add: word_sle_eq)
  have 2: "BeaconForEpoch ?s 13 = Some ?b" by (simp add: word_sle_eq)
  have 3: "\<not> IsChained ?b" by (simp add: epochBeacon_def loggingBeacon_def)
  have 4: "(10 :: ChainEpoch) <s 13" by (simp add: word_sless_alt)
  have 5: "carriesRound background ?b"
    by (simp add: carriesRound_def epochBeacon_def loggingBeacon_def)
  have 6: "BeaconEntriesForBlock background ?s 0 13 10 (entry 10) []
             = Some (Inr [entry 11, entry 12, entry 13], [13, 12, 11])"
    by (simp add: BeaconEntriesForBlock_def fetchLoop.simps reverse_def reverseLoop.simps
          epochBeacon_def loggingBeacon_def entry_def background_def word_sle_eq word_sless_alt)
  have 7: "\<forall>i<length [entry 11, entry 12, entry 13].
             VerifyEntry ?b ([entry 11, entry 12, entry 13] ! i)
               (Data (if i = 0 then entry 10 else [entry 11, entry 12, entry 13] ! (i - 1))) = None"
    by (simp add: epochBeacon_def loggingBeacon_def)
  from producer_validator_duality [OF 1 2 3 4 5 6 7] show ?thesis .
qed

text \<open>
  C2 (fork two-entry invariant). When the schedule resolves the parent epoch and the
  block epoch to different beacons and the beacon of the block epoch is chained,
  \<^verbatim>\<open>ValidateBlockValues\<close> accepts exactly when the block carries two entries and
  \<^verbatim>\<open>VerifyEntry\<close> accepts the second one against the data of the first; every other
  count is rejected, and nothing else is consulted. \<^verbatim>\<open>BeaconEntriesForBlock\<close> fetches
  round - 1 and then round, and returns the two entries, or the error of the first fetch
  that failed.
\<close>

theorem fork_two_entries:
  assumes "BeaconForEpoch bSchedule parentEpoch = Some parentBeacon"
    and "BeaconForEpoch bSchedule epoch = Some currBeacon"
    and "ident parentBeacon \<noteq> ident currBeacon"
    and "IsChained currBeacon"
  shows "(ValidateBlockValues bSchedule nv \<lparr>Height = epoch, BeaconEntries = es\<rparr> parentEpoch prevEntry
            = Some None
          \<longleftrightarrow> length es = 2 \<and> VerifyEntry currBeacon (es ! 1) (Data (es ! 0)) = None)
       \<and> (length es \<noteq> 2 \<longrightarrow>
            ValidateBlockValues bSchedule nv \<lparr>Height = epoch, BeaconEntries = es\<rparr> parentEpoch prevEntry
              = Some (Some (ExpectedTwoEntries (length es))))
       \<and> (\<forall>err. length es = 2 \<and> VerifyEntry currBeacon (es ! 1) (Data (es ! 0)) = Some err \<longrightarrow>
            ValidateBlockValues bSchedule nv \<lparr>Height = epoch, BeaconEntries = es\<rparr> parentEpoch prevEntry
              = Some (Some (ForkPointInvalid (es ! 1) (es ! 0) err)))
       \<and> (let round = MaxBeaconRoundForEpoch currBeacon nv epoch;
               first = Entry currBeacon ctx (round - 1) w;
               second = Entry currBeacon ctx round (snd first)
           in BeaconEntriesForBlock ctx bSchedule nv epoch parentEpoch prev w
              = Some (case resp_Err (fst first) of
                        Some err \<Rightarrow> (Inl (GettingEntry (round - 1) err), snd first)
                      | None \<Rightarrow>
                          (case resp_Err (fst second) of
                             Some err \<Rightarrow> (Inl (GettingEntry round err), snd second)
                           | None \<Rightarrow>
                               (Inr [resp_Entry (fst first), resp_Entry (fst second)],
                                snd second))))"
  using assms
  by (auto simp: BeaconEntriesForBlock_def ValidateBlockValues_def Let_def
           split: option.splits prod.splits)

theorem fork_two_entries_witness:
  "ValidateBlockValues forkSchedule 0
     \<lparr>Height = 100, BeaconEntries = [\<lparr>Round = 99, Data = [3]\<rparr>, \<lparr>Round = 100, Data = [1, 3]\<rparr>]\<rparr>
     99 (entry 99) = Some None
   \<and> ValidateBlockValues forkSchedule 0
     \<lparr>Height = 100, BeaconEntries = [\<lparr>Round = 99, Data = [3]\<rparr>, \<lparr>Round = 100, Data = [2]\<rparr>]\<rparr>
     99 (entry 99)
     = Some (Some (ForkPointInvalid \<lparr>Round = 100, Data = [2]\<rparr> \<lparr>Round = 99, Data = [3]\<rparr>
                     (External ''invalid signature'')))
   \<and> ValidateBlockValues forkSchedule 0
        \<lparr>Height = 100, BeaconEntries = [\<lparr>Round = 100, Data = [1, 3]\<rparr>]\<rparr> 99 (entry 99)
     = Some (Some (ExpectedTwoEntries 1))
   \<and> ValidateBlockValues forkSchedule 0
        \<lparr>Height = 100, BeaconEntries = [\<lparr>Round = 98, Data = []\<rparr>, \<lparr>Round = 99, Data = [3]\<rparr>,
                                         \<lparr>Round = 100, Data = [1, 3]\<rparr>]\<rparr> 99 (entry 99)
     = Some (Some (ExpectedTwoEntries 3))
   \<and> BeaconEntriesForBlock background forkSchedule 0 100 99 (entry 99) []
     = Some (Inr [entry 99, entry 100], [99, 100])"
proof -
  let ?old = "epochBeacon 0 False"
  let ?new = "linkBeacon 1 True"
  have 1: "BeaconForEpoch forkSchedule 99 = Some ?old"
    by (simp add: forkSchedule_def word_sle_eq)
  have 2: "BeaconForEpoch forkSchedule 100 = Some ?new"
    by (simp add: forkSchedule_def word_sle_eq)
  have 3: "ident ?old \<noteq> ident ?new"
    by (simp add: epochBeacon_def linkBeacon_def loggingBeacon_def)
  have 4: "IsChained ?new"
    by (simp add: linkBeacon_def loggingBeacon_def)
  note f = fork_two_entries [OF 1 2 3 4, of 0 _ "entry 99" background "[]" "entry 99"]
  have a: "ValidateBlockValues forkSchedule 0
     \<lparr>Height = 100, BeaconEntries = [\<lparr>Round = 99, Data = [3]\<rparr>, \<lparr>Round = 100, Data = [1, 3]\<rparr>]\<rparr>
     99 (entry 99) = Some None"
    using f [of "[\<lparr>Round = 99, Data = [3]\<rparr>, \<lparr>Round = 100, Data = [1, 3]\<rparr>]"]
    by (simp add: linkBeacon_def loggingBeacon_def)
  have b: "ValidateBlockValues forkSchedule 0
     \<lparr>Height = 100, BeaconEntries = [\<lparr>Round = 99, Data = [3]\<rparr>, \<lparr>Round = 100, Data = [2]\<rparr>]\<rparr>
     99 (entry 99)
     = Some (Some (ForkPointInvalid \<lparr>Round = 100, Data = [2]\<rparr> \<lparr>Round = 99, Data = [3]\<rparr>
                     (External ''invalid signature'')))"
    using f [of "[\<lparr>Round = 99, Data = [3]\<rparr>, \<lparr>Round = 100, Data = [2]\<rparr>]"]
    by (simp add: linkBeacon_def loggingBeacon_def)
  have c: "ValidateBlockValues forkSchedule 0
        \<lparr>Height = 100, BeaconEntries = [\<lparr>Round = 100, Data = [1, 3]\<rparr>]\<rparr> 99 (entry 99)
     = Some (Some (ExpectedTwoEntries 1))"
    using f [of "[\<lparr>Round = 100, Data = [1, 3]\<rparr>]"] by simp
  have d: "ValidateBlockValues forkSchedule 0
        \<lparr>Height = 100, BeaconEntries = [\<lparr>Round = 98, Data = []\<rparr>, \<lparr>Round = 99, Data = [3]\<rparr>,
                                         \<lparr>Round = 100, Data = [1, 3]\<rparr>]\<rparr> 99 (entry 99)
     = Some (Some (ExpectedTwoEntries 3))"
    using f [of "[\<lparr>Round = 98, Data = []\<rparr>, \<lparr>Round = 99, Data = [3]\<rparr>,
                  \<lparr>Round = 100, Data = [1, 3]\<rparr>]"] by simp
  have e: "BeaconEntriesForBlock background forkSchedule 0 100 99 (entry 99) []
             = Some (Inr [entry 99, entry 100], [99, 100])"
    using f [of "[]"] by (simp add: linkBeacon_def loggingBeacon_def entry_def)
  from a b c d e show ?thesis by simp
qed

text \<open>
  C3 (genesis bypass), as amended. For a chained beacon that governs both epochs, a
  previous entry of round 0 and a block epoch whose round is not 0,
  \<^verbatim>\<open>ValidateBlockValues\<close> accepts every block with a non-empty entry list, whatever the
  entries are and whatever \<^verbatim>\<open>VerifyEntry\<close> would say of them.
\<close>

theorem genesis_bypass:
  assumes "BeaconForEpoch bSchedule parentEpoch = Some parentBeacon"
    and "BeaconForEpoch bSchedule epoch = Some currBeacon"
    and "ident parentBeacon = ident currBeacon"
    and "IsChained currBeacon"
    and "Round prevEntry = 0"
    and "MaxBeaconRoundForEpoch currBeacon nv epoch \<noteq> 0"
    and "es \<noteq> []"
  shows "ValidateBlockValues bSchedule nv \<lparr>Height = epoch, BeaconEntries = es\<rparr> parentEpoch prevEntry
         = Some None"
  using assms by (auto simp: ValidateBlockValues_def Let_def)

theorem genesis_bypass_witness:
  "ValidateBlockValues [\<lparr>Start = 0, Beacon = rejectingBeacon 0 True\<rparr>] 0
     \<lparr>Height = 2, BeaconEntries = [\<lparr>Round = 77, Data = [9]\<rparr>]\<rparr> 1 (entry 0) = Some None"
proof -
  let ?s = "[\<lparr>Start = 0, Beacon = rejectingBeacon 0 True\<rparr>]"
  have 1: "BeaconForEpoch ?s 1 = Some (rejectingBeacon 0 True)" by (simp add: word_sle_eq)
  have 2: "BeaconForEpoch ?s 2 = Some (rejectingBeacon 0 True)" by (simp add: word_sle_eq)
  have 3: "ident (rejectingBeacon 0 True) = ident (rejectingBeacon 0 True)" by simp
  have 4: "IsChained (rejectingBeacon 0 True)" by (simp add: rejectingBeacon_def loggingBeacon_def)
  have 5: "Round (entry 0) = 0" by (simp add: entry_def)
  have 6: "MaxBeaconRoundForEpoch (rejectingBeacon 0 True) 0 2 \<noteq> 0"
    by (simp add: rejectingBeacon_def loggingBeacon_def)
  have 7: "[\<lparr>Round = 77, Data = [9]\<rparr>] \<noteq> []" by simp
  from genesis_bypass [OF 1 2 3 4 5 6 7] show ?thesis .
qed

text \<open>
  C3 as stated fails: with a previous entry of round 0, a chained beacon rejects the
  block with the empty entry list when the round of the block epoch is not 0, and the
  block with one entry when that round is 0.
\<close>

theorem genesis_bypass_counterexample:
  "BeaconForEpoch [\<lparr>Start = 0, Beacon = epochBeacon 0 True\<rparr>] 1 = Some (epochBeacon 0 True)
   \<and> BeaconForEpoch [\<lparr>Start = 0, Beacon = epochBeacon 0 True\<rparr>] 2 = Some (epochBeacon 0 True)
   \<and> IsChained (epochBeacon 0 True)
   \<and> Round (entry 0) = 0
   \<and> ValidateBlockValues [\<lparr>Start = 0, Beacon = epochBeacon 0 True\<rparr>] 0
        \<lparr>Height = 2, BeaconEntries = []\<rparr> 1 (entry 0) = Some (Some ExpectedEntries)
   \<and> BeaconForEpoch [\<lparr>Start = 0, Beacon = epochBeacon 0 True\<rparr>] 0 = Some (epochBeacon 0 True)
   \<and> ValidateBlockValues [\<lparr>Start = 0, Beacon = epochBeacon 0 True\<rparr>] 0
        \<lparr>Height = 0, BeaconEntries = [entry 0]\<rparr> 0 (entry 0) = Some (Some (ExpectedNoEntries 1))"
  by (simp add: ValidateBlockValues_def epochBeacon_def loggingBeacon_def entry_def word_sle_eq)

text \<open>
  C4 (no-op epoch). Outside the fork case, when the round of the block epoch equals the
  round of the previous entry, \<^verbatim>\<open>BeaconEntriesForBlock\<close> returns the empty sequence
  without error and without a request, and \<^verbatim>\<open>ValidateBlockValues\<close> accepts the block
  with no entries and rejects every block with entries.
\<close>

theorem noop_epoch:
  assumes "BeaconForEpoch bSchedule parentEpoch = Some parentBeacon"
    and "BeaconForEpoch bSchedule epoch = Some currBeacon"
    and "\<not> (ident parentBeacon \<noteq> ident currBeacon \<and> IsChained currBeacon)"
    and "MaxBeaconRoundForEpoch currBeacon nv epoch = Round prev"
  shows "BeaconEntriesForBlock ctx bSchedule nv epoch parentEpoch prev w = Some (Inr [], w)
       \<and> ValidateBlockValues bSchedule nv \<lparr>Height = epoch, BeaconEntries = []\<rparr> parentEpoch prev
           = Some None
       \<and> (\<forall>es. es \<noteq> [] \<longrightarrow>
            ValidateBlockValues bSchedule nv \<lparr>Height = epoch, BeaconEntries = es\<rparr> parentEpoch prev
              = Some (Some (ExpectedNoEntries (length es))))"
  using assms by (auto simp: BeaconEntriesForBlock_def ValidateBlockValues_def)

theorem noop_epoch_witness:
  "BeaconEntriesForBlock background [\<lparr>Start = 0, Beacon = epochBeacon 0 False\<rparr>] 0 5 4 (entry 5) []
     = Some (Inr [], [])
   \<and> ValidateBlockValues [\<lparr>Start = 0, Beacon = epochBeacon 0 False\<rparr>] 0
        \<lparr>Height = 5, BeaconEntries = []\<rparr> 4 (entry 5) = Some None
   \<and> ValidateBlockValues [\<lparr>Start = 0, Beacon = epochBeacon 0 False\<rparr>] 0
        \<lparr>Height = 5, BeaconEntries = [entry 5]\<rparr> 4 (entry 5) = Some (Some (ExpectedNoEntries 1))"
proof -
  let ?s = "[\<lparr>Start = 0, Beacon = epochBeacon 0 False\<rparr>]"
  have 1: "BeaconForEpoch ?s 4 = Some (epochBeacon 0 False)" by (simp add: word_sle_eq)
  have 2: "BeaconForEpoch ?s 5 = Some (epochBeacon 0 False)" by (simp add: word_sle_eq)
  have 3: "\<not> (ident (epochBeacon 0 False) \<noteq> ident (epochBeacon 0 False)
              \<and> IsChained (epochBeacon 0 False))" by simp
  have 4: "MaxBeaconRoundForEpoch (epochBeacon 0 False) 0 5 = Round (entry 5)"
    by (simp add: epochBeacon_def loggingBeacon_def entry_def)
  from noop_epoch [OF 1 2 3 4, of background "[]"] show ?thesis by simp
qed

text \<open>
  C5 (round check of unchained beacons). The block has entries and the round of its
  epoch differs from the round of the previous entry. For an unchained beacon
  \<^verbatim>\<open>ValidateBlockValues\<close> accepts exactly when the entry at every position \<open>i\<close> has the
  round of epoch \<open>parentEpoch + i + 1\<close>, the last entry has the round of the block epoch,
  and the entries verify; otherwise it returns an error. For a chained beacon outside the
  fork and the genesis cases, the rounds of the positions are not looked at: it accepts
  exactly when the last entry has the round of the block epoch and the entries verify.
\<close>

theorem unchained_round_check:
  assumes "BeaconForEpoch bSchedule parentEpoch = Some parentBeacon"
    and "BeaconForEpoch bSchedule epoch = Some currBeacon"
    and "MaxBeaconRoundForEpoch currBeacon nv epoch \<noteq> Round prevEntry"
    and "es \<noteq> []"
  shows "(\<not> IsChained currBeacon \<longrightarrow>
            (ValidateBlockValues bSchedule nv \<lparr>Height = epoch, BeaconEntries = es\<rparr> parentEpoch prevEntry
               = Some None
             \<longleftrightarrow> (\<forall>i<length es. Round (es ! i) =
                      MaxBeaconRoundForEpoch currBeacon nv (parentEpoch + of_nat i + 1))
                 \<and> Round (last es) = MaxBeaconRoundForEpoch currBeacon nv epoch
                 \<and> verifyLoop currBeacon 0 es prevEntry = None))
       \<and> (IsChained currBeacon \<and> ident parentBeacon = ident currBeacon \<and> Round prevEntry \<noteq> 0 \<longrightarrow>
            (ValidateBlockValues bSchedule nv \<lparr>Height = epoch, BeaconEntries = es\<rparr> parentEpoch prevEntry
               = Some None
             \<longleftrightarrow> Round (last es) = MaxBeaconRoundForEpoch currBeacon nv epoch
                 \<and> verifyLoop currBeacon 0 es prevEntry = None))
       \<and> (\<exists>r. ValidateBlockValues bSchedule nv \<lparr>Height = epoch, BeaconEntries = es\<rparr> parentEpoch
                 prevEntry = Some r)"
proof (intro conjI impI)
  assume u: "\<not> IsChained currBeacon"
  then have nf: "\<not> (ident parentBeacon \<noteq> ident currBeacon \<and> IsChained currBeacon)"
    and nb: "\<not> (IsChained currBeacon \<and> Round prevEntry = 0)" by simp_all
  from roundsLoop_None_iff [of currBeacon nv parentEpoch 0 es]
  have r: "roundsLoop currBeacon nv parentEpoch 0 es = None \<longleftrightarrow>
             (\<forall>i<length es. Round (es ! i) =
                MaxBeaconRoundForEpoch currBeacon nv (parentEpoch + of_nat i + 1))"
    by simp
  show "ValidateBlockValues bSchedule nv \<lparr>Height = epoch, BeaconEntries = es\<rparr> parentEpoch prevEntry
          = Some None
        \<longleftrightarrow> (\<forall>i<length es. Round (es ! i) =
                 MaxBeaconRoundForEpoch currBeacon nv (parentEpoch + of_nat i + 1))
            \<and> Round (last es) = MaxBeaconRoundForEpoch currBeacon nv epoch
            \<and> verifyLoop currBeacon 0 es prevEntry = None"
    unfolding ValidateBlockValues_checks [OF assms(1,2) nf assms(3,4) nb] r [symmetric]
    using u by (auto split: option.splits)
next
  assume c: "IsChained currBeacon \<and> ident parentBeacon = ident currBeacon \<and> Round prevEntry \<noteq> 0"
  then have nf: "\<not> (ident parentBeacon \<noteq> ident currBeacon \<and> IsChained currBeacon)"
    and nb: "\<not> (IsChained currBeacon \<and> Round prevEntry = 0)" by simp_all
  show "ValidateBlockValues bSchedule nv \<lparr>Height = epoch, BeaconEntries = es\<rparr> parentEpoch prevEntry
          = Some None
        \<longleftrightarrow> Round (last es) = MaxBeaconRoundForEpoch currBeacon nv epoch
            \<and> verifyLoop currBeacon 0 es prevEntry = None"
    unfolding ValidateBlockValues_checks [OF assms(1,2) nf assms(3,4) nb]
    using c by auto
next
  show "\<exists>r. ValidateBlockValues bSchedule nv \<lparr>Height = epoch, BeaconEntries = es\<rparr> parentEpoch
              prevEntry = Some r"
    using assms(1,2) by (simp add: ValidateBlockValues_def)
qed

theorem unchained_round_check_witness:
  "ValidateBlockValues [\<lparr>Start = 0, Beacon = epochBeacon 0 False\<rparr>] 0
     \<lparr>Height = 13, BeaconEntries = [entry 11, entry 12, entry 13]\<rparr> 10 (entry 10) = Some None
   \<and> ValidateBlockValues [\<lparr>Start = 0, Beacon = epochBeacon 0 False\<rparr>] 0
       \<lparr>Height = 13, BeaconEntries = [entry 11, entry 13]\<rparr> 10 (entry 10) \<noteq> Some None
   \<and> ValidateBlockValues [\<lparr>Start = 0, Beacon = epochBeacon 0 True\<rparr>] 0
       \<lparr>Height = 13, BeaconEntries = [entry 11, entry 13]\<rparr> 10 (entry 10) = Some None"
proof -
  let ?u = "epochBeacon 0 False"
  let ?c = "epochBeacon 0 True"
  have u1: "BeaconForEpoch [\<lparr>Start = 0, Beacon = ?u\<rparr>] 10 = Some ?u" by (simp add: word_sle_eq)
  have u2: "BeaconForEpoch [\<lparr>Start = 0, Beacon = ?u\<rparr>] 13 = Some ?u" by (simp add: word_sle_eq)
  have u3: "MaxBeaconRoundForEpoch ?u 0 13 \<noteq> Round (entry 10)"
    by (simp add: epochBeacon_def loggingBeacon_def entry_def)
  have c1: "BeaconForEpoch [\<lparr>Start = 0, Beacon = ?c\<rparr>] 10 = Some ?c" by (simp add: word_sle_eq)
  have c2: "BeaconForEpoch [\<lparr>Start = 0, Beacon = ?c\<rparr>] 13 = Some ?c" by (simp add: word_sle_eq)
  have c3: "MaxBeaconRoundForEpoch ?c 0 13 \<noteq> Round (entry 10)"
    by (simp add: epochBeacon_def loggingBeacon_def entry_def)
  have n3: "[entry 11, entry 12, entry 13] \<noteq> []" and n2: "[entry 11, entry 13] \<noteq> []"
    by simp_all
  have a: "ValidateBlockValues [\<lparr>Start = 0, Beacon = ?u\<rparr>] 0
             \<lparr>Height = 13, BeaconEntries = [entry 11, entry 12, entry 13]\<rparr> 10 (entry 10) = Some None"
    using unchained_round_check [OF u1 u2 u3 n3]
    by (simp add: epochBeacon_def loggingBeacon_def entry_def All_less_Suc)
  have b: "ValidateBlockValues [\<lparr>Start = 0, Beacon = ?u\<rparr>] 0
             \<lparr>Height = 13, BeaconEntries = [entry 11, entry 13]\<rparr> 10 (entry 10) \<noteq> Some None"
    using unchained_round_check [OF u1 u2 u3 n2]
    by (simp add: epochBeacon_def loggingBeacon_def entry_def All_less_Suc)
  have c: "ValidateBlockValues [\<lparr>Start = 0, Beacon = ?c\<rparr>] 0
             \<lparr>Height = 13, BeaconEntries = [entry 11, entry 13]\<rparr> 10 (entry 10) = Some None"
    using unchained_round_check [OF c1 c2 c3 n2]
    by (simp add: epochBeacon_def loggingBeacon_def entry_def)
  from a b c show ?thesis by simp
qed

text \<open>
  C6 (sequential chain verification). On the path without fork and without bypass, once
  the checks of the rounds have passed, \<^verbatim>\<open>ValidateBlockValues\<close> accepts exactly when
  \<^verbatim>\<open>VerifyEntry\<close> accepts every entry against the data of the entry before it, the
  previous entry for the first. At the first position \<open>k\<close> where it fails with \<open>err\<close>,
  the block is rejected with an error that carries \<open>k\<close>, the round and the data of that
  entry, and \<open>err\<close>, whatever \<^verbatim>\<open>VerifyEntry\<close> says of the later entries.
\<close>

theorem sequential_verification:
  assumes "BeaconForEpoch bSchedule parentEpoch = Some parentBeacon"
    and "BeaconForEpoch bSchedule epoch = Some currBeacon"
    and "\<not> (ident parentBeacon \<noteq> ident currBeacon \<and> IsChained currBeacon)"
    and "MaxBeaconRoundForEpoch currBeacon nv epoch \<noteq> Round prevEntry"
    and "es \<noteq> []"
    and "\<not> (IsChained currBeacon \<and> Round prevEntry = 0)"
    and "Round (last es) = MaxBeaconRoundForEpoch currBeacon nv epoch"
    and "\<not> IsChained currBeacon \<longrightarrow>
           (\<forall>i<length es. Round (es ! i) =
              MaxBeaconRoundForEpoch currBeacon nv (parentEpoch + of_nat i + 1))"
  shows "(ValidateBlockValues bSchedule nv \<lparr>Height = epoch, BeaconEntries = es\<rparr> parentEpoch prevEntry
            = Some None
          \<longleftrightarrow> (\<forall>i<length es. VerifyEntry currBeacon (es ! i)
                   (Data (if i = 0 then prevEntry else es ! (i - 1))) = None))
       \<and> (\<forall>k err. k < length es
             \<and> (\<forall>j<k. VerifyEntry currBeacon (es ! j)
                        (Data (if j = 0 then prevEntry else es ! (j - 1))) = None)
             \<and> VerifyEntry currBeacon (es ! k)
                  (Data (if k = 0 then prevEntry else es ! (k - 1))) = Some err
             \<longrightarrow> ValidateBlockValues bSchedule nv \<lparr>Height = epoch, BeaconEntries = es\<rparr> parentEpoch
                   prevEntry
                 = Some (Some (EntryInvalid k (Round (es ! k)) (Data (es ! k))
                                 (length (Data (es ! k))) err)))"
proof -
  have r: "\<not> IsChained currBeacon \<longrightarrow> roundsLoop currBeacon nv parentEpoch 0 es = None"
    using assms(8) roundsLoop_None_iff [of currBeacon nv parentEpoch 0 es] by simp
  have v: "ValidateBlockValues bSchedule nv \<lparr>Height = epoch, BeaconEntries = es\<rparr> parentEpoch prevEntry
           = Some (verifyLoop currBeacon 0 es prevEntry)"
    unfolding ValidateBlockValues_checks [OF assms(1-6)] using assms(7) r by auto
  show ?thesis
  proof (intro conjI allI impI)
    show "ValidateBlockValues bSchedule nv \<lparr>Height = epoch, BeaconEntries = es\<rparr> parentEpoch prevEntry
            = Some None
          \<longleftrightarrow> (\<forall>i<length es. VerifyEntry currBeacon (es ! i)
                   (Data (if i = 0 then prevEntry else es ! (i - 1))) = None)"
      unfolding v using verifyLoop_None_iff [of currBeacon 0 es prevEntry] by simp
  next
    fix k err
    assume a: "k < length es
             \<and> (\<forall>j<k. VerifyEntry currBeacon (es ! j)
                        (Data (if j = 0 then prevEntry else es ! (j - 1))) = None)
             \<and> VerifyEntry currBeacon (es ! k)
                  (Data (if k = 0 then prevEntry else es ! (k - 1))) = Some err"
    then have "verifyLoop currBeacon 0 es prevEntry =
                 Some (EntryInvalid (0 + k) (Round (es ! k)) (Data (es ! k))
                         (length (Data (es ! k))) err)"
      by (intro verifyLoop_first_failure) simp_all
    then show "ValidateBlockValues bSchedule nv \<lparr>Height = epoch, BeaconEntries = es\<rparr> parentEpoch
                 prevEntry
               = Some (Some (EntryInvalid k (Round (es ! k)) (Data (es ! k))
                               (length (Data (es ! k))) err))"
      unfolding v by simp
  qed
qed

theorem sequential_verification_witness:
  "ValidateBlockValues [\<lparr>Start = 0, Beacon = linkBeacon 0 True\<rparr>] 0
     \<lparr>Height = 13, BeaconEntries = [\<lparr>Round = 11, Data = [1]\<rparr>, \<lparr>Round = 12, Data = [1, 1]\<rparr>,
                                     \<lparr>Round = 13, Data = [1, 1, 1]\<rparr>]\<rparr> 10 \<lparr>Round = 10, Data = []\<rparr>
     = Some None
   \<and> ValidateBlockValues [\<lparr>Start = 0, Beacon = linkBeacon 0 True\<rparr>] 0
     \<lparr>Height = 13, BeaconEntries = [\<lparr>Round = 11, Data = [1]\<rparr>, \<lparr>Round = 12, Data = [7]\<rparr>,
                                     \<lparr>Round = 13, Data = [1, 1, 1]\<rparr>]\<rparr> 10 \<lparr>Round = 10, Data = []\<rparr>
     = Some (Some (EntryInvalid 1 12 [7] 1 (External ''invalid signature'')))"
proof -
  let ?b = "linkBeacon 0 True"
  let ?s = "[\<lparr>Start = 0, Beacon = ?b\<rparr>]"
  let ?p = "\<lparr>Round = 10, Data = []\<rparr>"
  let ?good = "[\<lparr>Round = 11, Data = [1]\<rparr>, \<lparr>Round = 12, Data = [1, 1]\<rparr>,
                \<lparr>Round = 13, Data = [1, 1, 1]\<rparr>]"
  let ?bad = "[\<lparr>Round = 11, Data = [1]\<rparr>, \<lparr>Round = 12, Data = [7]\<rparr>,
               \<lparr>Round = 13, Data = [1, 1, 1]\<rparr>]"
  have 1: "BeaconForEpoch ?s 10 = Some ?b" by (simp add: word_sle_eq)
  have 2: "BeaconForEpoch ?s 13 = Some ?b" by (simp add: word_sle_eq)
  have 3: "\<not> (ident ?b \<noteq> ident ?b \<and> IsChained ?b)" by simp
  have 4: "MaxBeaconRoundForEpoch ?b 0 13 \<noteq> Round ?p"
    by (simp add: linkBeacon_def loggingBeacon_def)
  have 6: "\<not> (IsChained ?b \<and> Round ?p = 0)" by simp
  have g5: "?good \<noteq> []" and b5: "?bad \<noteq> []" by simp_all
  have g7: "Round (last ?good) = MaxBeaconRoundForEpoch ?b 0 13"
    and b7: "Round (last ?bad) = MaxBeaconRoundForEpoch ?b 0 13"
    by (simp_all add: linkBeacon_def loggingBeacon_def)
  have g8: "\<not> IsChained ?b \<longrightarrow>
              (\<forall>i<length ?good. Round (?good ! i) = MaxBeaconRoundForEpoch ?b 0 (10 + of_nat i + 1))"
    and b8: "\<not> IsChained ?b \<longrightarrow>
              (\<forall>i<length ?bad. Round (?bad ! i) = MaxBeaconRoundForEpoch ?b 0 (10 + of_nat i + 1))"
    by (simp_all add: linkBeacon_def loggingBeacon_def)
  have g: "ValidateBlockValues ?s 0 \<lparr>Height = 13, BeaconEntries = ?good\<rparr> 10 ?p = Some None"
    using sequential_verification [OF 1 2 3 4 g5 6 g7 g8, THEN conjunct1]
    by (simp add: linkBeacon_def loggingBeacon_def All_less_Suc)
  have b: "ValidateBlockValues ?s 0 \<lparr>Height = 13, BeaconEntries = ?bad\<rparr> 10 ?p
             = Some (Some (EntryInvalid 1 12 [7] 1 (External ''invalid signature'')))"
    using sequential_verification [OF 1 2 3 4 b5 6 b7 b8, THEN conjunct2, rule_format,
            of 1 "External ''invalid signature''"]
    by (simp add: linkBeacon_def loggingBeacon_def)
  from g b show ?thesis by simp
qed

text \<open>
  C7 (order of the entries returned), as amended. A successful call of
  \<^verbatim>\<open>BeaconEntriesForBlock\<close> outside the fork case returns the entries in ascending order of
  epoch, oldest first: one for every epoch from \<open>parentEpoch + 1\<close> to \<open>epoch\<close>, the one at
  position \<open>i\<close> with the round of epoch \<open>parentEpoch + i + 1\<close> (none when the round of the
  block epoch is the round of the previous entry). So the rounds are non-decreasing when
  \<^verbatim>\<open>MaxBeaconRoundForEpoch\<close> is non-decreasing on these epochs, and strictly increasing
  when it is strictly increasing on them.
\<close>

theorem ascending_epoch_order:
  assumes "BeaconForEpoch bSchedule parentEpoch = Some parentBeacon"
    and "BeaconForEpoch bSchedule epoch = Some currBeacon"
    and "\<not> (ident parentBeacon \<noteq> ident currBeacon \<and> IsChained currBeacon)"
    and "carriesRound ctx currBeacon"
    and "BeaconEntriesForBlock ctx bSchedule nv epoch parentEpoch prev w = Some (Inr es, w')"
  shows "int (length es) =
           (if MaxBeaconRoundForEpoch currBeacon nv epoch = Round prev then 0
            else max 0 (sint epoch - sint parentEpoch))
       \<and> (\<forall>i<length es. Round (es ! i) =
            MaxBeaconRoundForEpoch currBeacon nv (parentEpoch + of_nat i + 1))
       \<and> ((\<forall>e1 e2. parentEpoch <s e1 \<and> e1 <s e2 \<and> e2 \<le>s epoch \<longrightarrow>
              MaxBeaconRoundForEpoch currBeacon nv e1 \<le> MaxBeaconRoundForEpoch currBeacon nv e2)
            \<longrightarrow> sorted (map Round es))
       \<and> ((\<forall>e1 e2. parentEpoch <s e1 \<and> e1 <s e2 \<and> e2 \<le>s epoch \<longrightarrow>
              MaxBeaconRoundForEpoch currBeacon nv e1 < MaxBeaconRoundForEpoch currBeacon nv e2)
            \<longrightarrow> sorted_wrt (<) (map Round es))"
proof -
  note len = BeaconEntriesForBlock_rounds(1) [OF assms]
  note rounds = BeaconEntriesForBlock_rounds(2) [OF assms]
  have bound: "int (length es) \<le> max 0 (sint epoch - sint parentEpoch)"
    using len by (simp split: if_splits)
  have order: "parentEpoch <s parentEpoch + of_nat i + 1
             \<and> parentEpoch + of_nat i + 1 <s parentEpoch + of_nat j + 1
             \<and> parentEpoch + of_nat j + 1 \<le>s epoch"
    if "i < j" "j < length es" for i j
  proof -
    from that bound have j: "int j < sint epoch - sint parentEpoch" by simp
    with that have i: "int i < sint epoch - sint parentEpoch" by simp
    from sint_epoch_offset [OF i] sint_epoch_offset [OF j] that j show ?thesis
      by (simp add: word_sless_alt word_sle_eq)
  qed
  have mono: "sorted (map Round es)"
    if m: "\<forall>e1 e2. parentEpoch <s e1 \<and> e1 <s e2 \<and> e2 \<le>s epoch \<longrightarrow>
              MaxBeaconRoundForEpoch currBeacon nv e1 \<le> MaxBeaconRoundForEpoch currBeacon nv e2"
  proof -
    have "map Round es ! i \<le> map Round es ! j" if "i < j" "j < length (map Round es)" for i j
    proof -
      from that have ij: "i < j" "j < length es" "i < length es" by simp_all
      from m order [OF ij(1,2)]
      have "MaxBeaconRoundForEpoch currBeacon nv (parentEpoch + of_nat i + 1)
              \<le> MaxBeaconRoundForEpoch currBeacon nv (parentEpoch + of_nat j + 1)" by blast
      with rounds ij show ?thesis by simp
    qed
    then show ?thesis by (simp only: sorted_iff_nth_mono_less) blast
  qed
  have strict: "sorted_wrt (<) (map Round es)"
    if m: "\<forall>e1 e2. parentEpoch <s e1 \<and> e1 <s e2 \<and> e2 \<le>s epoch \<longrightarrow>
              MaxBeaconRoundForEpoch currBeacon nv e1 < MaxBeaconRoundForEpoch currBeacon nv e2"
  proof -
    have "map Round es ! i < map Round es ! j" if "i < j" "j < length (map Round es)" for i j
    proof -
      from that have ij: "i < j" "j < length es" "i < length es" by simp_all
      from m order [OF ij(1,2)]
      have "MaxBeaconRoundForEpoch currBeacon nv (parentEpoch + of_nat i + 1)
              < MaxBeaconRoundForEpoch currBeacon nv (parentEpoch + of_nat j + 1)" by blast
      with rounds ij show ?thesis by simp
    qed
    then show ?thesis by (simp only: sorted_wrt_iff_nth_less) blast
  qed
  from len rounds mono strict show ?thesis by blast
qed

theorem ascending_epoch_order_witness:
  "int (length [entry 11, entry 12, entry 13]) = 3
   \<and> sorted_wrt (<) (map Round [entry 11, entry 12, entry 13])
   \<and> sorted (map Round [entry 11, entry 12, entry 13])
   \<and> map Round [entry 11, entry 12, entry 13]
       = [MaxBeaconRoundForEpoch (epochBeacon 0 False) 0 11,
          MaxBeaconRoundForEpoch (epochBeacon 0 False) 0 12,
          MaxBeaconRoundForEpoch (epochBeacon 0 False) 0 13]"
proof -
  let ?b = "epochBeacon 0 False"
  let ?s = "[\<lparr>Start = 0, Beacon = ?b\<rparr>]"
  have 1: "BeaconForEpoch ?s 10 = Some ?b" by (simp add: word_sle_eq)
  have 2: "BeaconForEpoch ?s 13 = Some ?b" by (simp add: word_sle_eq)
  have 3: "\<not> (ident ?b \<noteq> ident ?b \<and> IsChained ?b)" by simp
  have 4: "carriesRound background ?b"
    by (simp add: carriesRound_def epochBeacon_def loggingBeacon_def)
  have 5: "BeaconEntriesForBlock background ?s 0 13 10 (entry 10) []
             = Some (Inr [entry 11, entry 12, entry 13], [13, 12, 11])"
    by (simp add: BeaconEntriesForBlock_def fetchLoop.simps reverse_def reverseLoop.simps
          epochBeacon_def loggingBeacon_def entry_def background_def word_sle_eq word_sless_alt)
  have strict: "\<forall>e1 e2. 10 <s e1 \<and> e1 <s e2 \<and> e2 \<le>s 13 \<longrightarrow>
                  MaxBeaconRoundForEpoch ?b 0 e1 < MaxBeaconRoundForEpoch ?b 0 e2"
  proof (intro allI impI)
    fix e1 e2 :: ChainEpoch
    assume a: "10 <s e1 \<and> e1 <s e2 \<and> e2 \<le>s 13"
    then have "0 \<le> sint e1" by (simp add: word_sless_alt)
    with a have "e1 < e2" by (intro nonneg_signed_less) simp_all
    then show "MaxBeaconRoundForEpoch ?b 0 e1 < MaxBeaconRoundForEpoch ?b 0 e2"
      by (simp add: epochBeacon_def loggingBeacon_def)
  qed
  then have mono: "\<forall>e1 e2. 10 <s e1 \<and> e1 <s e2 \<and> e2 \<le>s 13 \<longrightarrow>
                  MaxBeaconRoundForEpoch ?b 0 e1 \<le> MaxBeaconRoundForEpoch ?b 0 e2"
    by (meson less_imp_le)
  have 6: "MaxBeaconRoundForEpoch ?b 0 13 \<noteq> Round (entry 10)"
    by (simp add: epochBeacon_def loggingBeacon_def entry_def)
  have 7: "max 0 (sint (13 :: ChainEpoch) - sint (10 :: ChainEpoch)) = 3" by simp
  note t = ascending_epoch_order [OF 1 2 3 4 5]
  from t have rounds: "\<forall>i<length [entry 11, entry 12, entry 13].
         Round ([entry 11, entry 12, entry 13] ! i) =
           MaxBeaconRoundForEpoch ?b 0 (10 + of_nat i + 1)" by blast
  from rounds [rule_format, of 0] rounds [rule_format, of 1] rounds [rule_format, of 2]
  have m: "map Round [entry 11, entry 12, entry 13]
       = [MaxBeaconRoundForEpoch ?b 0 11, MaxBeaconRoundForEpoch ?b 0 12,
          MaxBeaconRoundForEpoch ?b 0 13]" by simp
  from t 6 7 have l: "int (length [entry 11, entry 12, entry 13]) = 3" by simp
  from t strict have s1: "sorted_wrt (<) (map Round [entry 11, entry 12, entry 13])" by blast
  from t mono have s2: "sorted (map Round [entry 11, entry 12, entry 13])" by blast
  from l s1 s2 m show ?thesis by blast
qed

text \<open>
  C7 as stated fails: a beacon whose round is 5 at every epoch, which is non-decreasing,
  gives two entries of round 5 for the epochs 1 and 2.
\<close>

theorem strictly_increasing_counterexample:
  "BeaconForEpoch [\<lparr>Start = 0, Beacon = constBeacon 0 False 5\<rparr>] 0 = Some (constBeacon 0 False 5)
   \<and> BeaconForEpoch [\<lparr>Start = 0, Beacon = constBeacon 0 False 5\<rparr>] 2 = Some (constBeacon 0 False 5)
   \<and> MaxBeaconRoundForEpoch (constBeacon 0 False 5) 0 1 = 5
   \<and> MaxBeaconRoundForEpoch (constBeacon 0 False 5) 0 2 = 5
   \<and> Entry (constBeacon 0 False 5) background 5 []
       = (\<lparr>resp_Entry = entry 5, resp_Err = None\<rparr>, [5])
   \<and> Entry (constBeacon 0 False 5) background 5 [5]
       = (\<lparr>resp_Entry = entry 5, resp_Err = None\<rparr>, [5, 5])
   \<and> BeaconEntriesForBlock background [\<lparr>Start = 0, Beacon = constBeacon 0 False 5\<rparr>] 0 2 0
        (entry 0) []
       = Some (Inr [entry 5, entry 5], [5, 5])
   \<and> \<not> sorted_wrt (<) (map Round [entry 5, entry 5])"
  by (simp add: BeaconEntriesForBlock_def fetchLoop.simps reverse_def reverseLoop.simps
        constBeacon_def loggingBeacon_def entry_def background_def word_sle_eq word_sless_alt)

text \<open>
  C8 (cancellation error context). The context is done while the second request, the one
  for epoch 1, is awaited; the error returned names epoch 2, the epoch of the block.
\<close>

theorem timeout_names_target_epoch:
  "BeaconEntriesForBlock (doneAfter 2) [\<lparr>Start = 0, Beacon = epochBeacon 0 False\<rparr>] 0 2 0 (entry 0) []
     = Some (Inl (TimedOut 2 (External ''context canceled'')), [2, 1])"
  by (simp add: BeaconEntriesForBlock_def fetchLoop.simps epochBeacon_def loggingBeacon_def
        entry_def doneAfter_def word_sle_eq word_sless_alt)

text \<open>
  C9 (independence of the previous entry). Outside the fork case, two previous entries
  whose rounds both differ from the round of the block epoch give the same result and
  the same world, that is the same requests; the adjustment of a round 0 is one such
  change of the previous entry.
\<close>

theorem prev_independence:
  assumes "BeaconForEpoch bSchedule parentEpoch = Some parentBeacon"
    and "BeaconForEpoch bSchedule epoch = Some currBeacon"
    and "\<not> (ident parentBeacon \<noteq> ident currBeacon \<and> IsChained currBeacon)"
    and "Round prev1 \<noteq> MaxBeaconRoundForEpoch currBeacon nv epoch"
    and "Round prev2 \<noteq> MaxBeaconRoundForEpoch currBeacon nv epoch"
  shows "BeaconEntriesForBlock ctx bSchedule nv epoch parentEpoch prev1 w
         = BeaconEntriesForBlock ctx bSchedule nv epoch parentEpoch prev2 w"
  using assms by (auto simp: BeaconEntriesForBlock_def Let_def)

theorem prev_independence_witness:
  "BeaconEntriesForBlock background [\<lparr>Start = 0, Beacon = epochBeacon 0 True\<rparr>] 0 13 10
     \<lparr>Round = 0, Data = []\<rparr> []
   = BeaconEntriesForBlock background [\<lparr>Start = 0, Beacon = epochBeacon 0 True\<rparr>] 0 13 10
     \<lparr>Round = 12, Data = [1, 2]\<rparr> []"
proof -
  let ?s = "[\<lparr>Start = 0, Beacon = epochBeacon 0 True\<rparr>]"
  have 1: "BeaconForEpoch ?s 10 = Some (epochBeacon 0 True)" by (simp add: word_sle_eq)
  have 2: "BeaconForEpoch ?s 13 = Some (epochBeacon 0 True)" by (simp add: word_sle_eq)
  have 3: "\<not> (ident (epochBeacon 0 True) \<noteq> ident (epochBeacon 0 True)
              \<and> IsChained (epochBeacon 0 True))" by simp
  have 4: "Round \<lparr>Round = 0, Data = []\<rparr> \<noteq> MaxBeaconRoundForEpoch (epochBeacon 0 True) 0 13"
    by (simp add: epochBeacon_def loggingBeacon_def)
  have 5: "Round \<lparr>Round = 12, Data = [1, 2]\<rparr> \<noteq> MaxBeaconRoundForEpoch (epochBeacon 0 True) 0 13"
    by (simp add: epochBeacon_def loggingBeacon_def)
  from prev_independence [OF 1 2 3 4 5] show ?thesis .
qed

text \<open>
  C10 (wrap-around of round - 1). In the fork branch, when the round of the block epoch
  is 0, the first request of \<^verbatim>\<open>BeaconEntriesForBlock\<close> is for round
  \<open>2 ^ 64 - 1\<close>, and the second for round 0.
\<close>

theorem fork_round_wraps:
  assumes "BeaconForEpoch bSchedule parentEpoch = Some parentBeacon"
    and "BeaconForEpoch bSchedule epoch = Some currBeacon"
    and "ident parentBeacon \<noteq> ident currBeacon"
    and "IsChained currBeacon"
    and "MaxBeaconRoundForEpoch currBeacon nv epoch = 0"
  shows "unat (MaxBeaconRoundForEpoch currBeacon nv epoch - 1) = 2 ^ 64 - 1
       \<and> (let first = Entry currBeacon ctx 18446744073709551615 w;
               second = Entry currBeacon ctx 0 (snd first)
           in BeaconEntriesForBlock ctx bSchedule nv epoch parentEpoch prev w
              = Some (case resp_Err (fst first) of
                        Some err \<Rightarrow> (Inl (GettingEntry 18446744073709551615 err), snd first)
                      | None \<Rightarrow>
                          (case resp_Err (fst second) of
                             Some err \<Rightarrow> (Inl (GettingEntry 0 err), snd second)
                           | None \<Rightarrow>
                               (Inr [resp_Entry (fst first), resp_Entry (fst second)],
                                snd second))))"
proof -
  have m: "(0::u64) - 1 = 18446744073709551615" by simp
  have "unat ((0::u64) - 1) = 2 ^ 64 - 1" unfolding m by simp
  with assms(5) have u: "unat (MaxBeaconRoundForEpoch currBeacon nv epoch - 1) = 2 ^ 64 - 1"
    by (simp only:)
  from BeaconEntriesForBlock_fork [OF assms m] u show ?thesis
    by (simp only: Let_def simp_thms)
qed

theorem fork_round_wraps_witness:
  "BeaconEntriesForBlock background zeroForkSchedule 0 100 99 (entry 99) []
     = Some (Inr [entry 18446744073709551615, entry 0], [18446744073709551615, 0])"
proof -
  have 1: "BeaconForEpoch zeroForkSchedule 99 = Some (epochBeacon 0 False)"
    by (simp add: zeroForkSchedule_def word_sle_eq)
  have 2: "BeaconForEpoch zeroForkSchedule 100 = Some (constBeacon 1 True 0)"
    by (simp add: zeroForkSchedule_def word_sle_eq)
  have 3: "ident (epochBeacon 0 False) \<noteq> ident (constBeacon 1 True 0)"
    by (simp add: epochBeacon_def constBeacon_def loggingBeacon_def)
  have 4: "IsChained (constBeacon 1 True 0)"
    by (simp add: constBeacon_def loggingBeacon_def)
  have 5: "MaxBeaconRoundForEpoch (constBeacon 1 True 0) 0 100 = 0"
    by (simp add: constBeacon_def loggingBeacon_def)
  from fork_round_wraps [OF 1 2 3 4 5, of background "[]" "entry 99"] show ?thesis
    by (simp add: constBeacon_def loggingBeacon_def entry_def)
qed

end
